theory Spec2Isabelle
  imports Main "HOL-Library.List_Lexorder" "HOL-Library.Char_ord" "HOL-Library.Product_Lexorder"
begin

section \<open>The arXiv metadata server (problem1/arxiv\_server.py)\<close>

text \<open>
  A shallow embedding of the paper server: the tokenizer, the abstract statistics, the
  whole-word term counter, the document store built at start-up and the request handler.

  Conventions of the model.
  \<^item> A \<open>char\<close> is a character with a code point below 256 (Latin-1, of which ASCII is
    the lower half); the character classes below are the ones Python's \<open>re\<close> and \<open>str\<close>
    use on these characters. Text with other characters is outside the model.
  \<^item> A value read by \<open>json.load\<close> is a \<open>json\<close>; numbers are integers.
  \<^item> An exception is a value of type \<open>error\<close> carrying the interpreter's message, and a
    function that can raise returns \<open>error + 'a\<close> with \<open>Inl\<close> for the exception.
  \<^item> The library calls \<open>urlparse\<close> and \<open>parse_qs\<close> are taken as having run: a request
    carries the path component and the parsed query. \<open>unquote\<close> is a parameter.
  \<^item> The log line that \<open>send_json\<close> prints is not part of the model.
\<close>

subsection \<open>Characters\<close>

definition is_upper :: "char \<Rightarrow> bool" where
  "is_upper c = (CHR ''A'' \<le> c \<and> c \<le> CHR ''Z'')"

definition is_lower :: "char \<Rightarrow> bool" where
  "is_lower c = (CHR ''a'' \<le> c \<and> c \<le> CHR ''z'')"

definition is_digit :: "char \<Rightarrow> bool" where
  "is_digit c = (CHR ''0'' \<le> c \<and> c \<le> CHR ''9'')"

text \<open>The class \<open>[A-Za-z]\<close> of \<open>WORD_RE\<close>.\<close>

definition is_alpha :: "char \<Rightarrow> bool" where
  "is_alpha c = (is_upper c \<or> is_lower c)"

text \<open>The characters from 128 to 255 that Unicode counts as alphanumeric: the ordinal
  indicators, the superscript digits, the micro sign, the three fractions, and the accented
  letters (all of 192 to 255 but the signs of multiplication and division).\<close>

definition latin1_alnum :: "char \<Rightarrow> bool" where
  "latin1_alnum c =
     (let n = (of_char c :: nat) in
      n = 170 \<or> n = 178 \<or> n = 179 \<or> n = 181 \<or> n = 185 \<or> n = 186
      \<or> (188 \<le> n \<and> n \<le> 190) \<or> (192 \<le> n \<and> n \<noteq> 215 \<and> n \<noteq> 247))"

text \<open>The class \<open>\w\<close> that decides where \<open>\b\<close> holds: the alphanumeric characters and
  the underscore.\<close>

definition is_word :: "char \<Rightarrow> bool" where
  "is_word c = (is_alpha c \<or> is_digit c \<or> c = CHR ''_'' \<or> latin1_alnum c)"

text \<open>What \<open>str.strip()\<close> removes: tab, LF, VT, FF, CR, the separators FS, GS, RS, US,
  space, NEL and the no-break space.\<close>

definition is_space :: "char \<Rightarrow> bool" where
  "is_space c =
     (let n = (of_char c :: nat) in
      (9 \<le> n \<and> n \<le> 13) \<or> (28 \<le> n \<and> n \<le> 32) \<or> n = 133 \<or> n = 160)"

text \<open>The characters with a lower-case form: \<open>A\<close> to \<open>Z\<close> and the accented capitals
  (192 to 222 but the multiplication sign). The lower-case form is 32 further.\<close>

definition has_lower :: "char \<Rightarrow> bool" where
  "has_lower c =
     (let n = (of_char c :: nat) in is_upper c \<or> (192 \<le> n \<and> n \<le> 222 \<and> n \<noteq> 215))"

definition lower_char :: "char \<Rightarrow> char" where
  "lower_char c = (if has_lower c then char_of (of_char c + (32::nat)) else c)"

text \<open>\<open>str.lower()\<close>.\<close>

definition lower :: "string \<Rightarrow> string" where
  "lower s = map lower_char s"

text \<open>\<open>str.strip()\<close>.\<close>

definition strip :: "string \<Rightarrow> string" where
  "strip s = rev (dropWhile is_space (rev (dropWhile is_space s)))"

subsection \<open>JSON values and exceptions\<close>

datatype json =
    JNull
  | JBool bool
  | JNum int
  | JStr string
  | JArr "json list"
  | JObj "(string \<times> json) list"

type_synonym dict = "(string \<times> json) list"

datatype error =
    JSONDecodeError string
  | AttributeError string
  | TypeError string
  | IndexError string

text \<open>Python's truth value of a loaded value, as \<open>or\<close>, \<open>not\<close> and \<open>bool()\<close> use it.\<close>

fun truthy :: "json \<Rightarrow> bool" where
  "truthy JNull = False"
| "truthy (JBool b) = b"
| "truthy (JNum n) = (n \<noteq> 0)"
| "truthy (JStr s) = (s \<noteq> [])"
| "truthy (JArr xs) = (xs \<noteq> [])"
| "truthy (JObj d) = (d \<noteq> [])"

text \<open>\<open>a or b\<close>.\<close>

definition py_or :: "json \<Rightarrow> json \<Rightarrow> json" where
  "py_or a b = (if truthy a then a else b)"

fun type_name :: "json \<Rightarrow> string" where
  "type_name JNull = ''NoneType''"
| "type_name (JBool b) = ''bool''"
| "type_name (JNum n) = ''int''"
| "type_name (JStr s) = ''str''"
| "type_name (JArr xs) = ''list''"
| "type_name (JObj d) = ''dict''"

definition no_attribute :: "json \<Rightarrow> string \<Rightarrow> error" where
  "no_attribute v a =
     AttributeError ([CHR 0x27] @ type_name v @ [CHR 0x27] @ '' object has no attribute ''
                     @ [CHR 0x27] @ a @ [CHR 0x27])"

definition not_iterable :: "json \<Rightarrow> error" where
  "not_iterable v =
     TypeError ([CHR 0x27] @ type_name v @ [CHR 0x27] @ '' object is not iterable'')"

definition unhashable :: "json \<Rightarrow> error" where
  "unhashable v = TypeError (''unhashable type: '' @ [CHR 0x27] @ type_name v @ [CHR 0x27])"

definition expected_string :: "json \<Rightarrow> error" where
  "expected_string v =
     TypeError (''expected string or bytes-like object, got ''
                @ [CHR 0x27] @ type_name v @ [CHR 0x27])"

text \<open>\<open>d.get(k)\<close> and \<open>d.get(k, default)\<close>.\<close>

definition get :: "dict \<Rightarrow> string \<Rightarrow> json" where
  "get d k = (case map_of d k of None \<Rightarrow> JNull | Some v \<Rightarrow> v)"

definition get_default :: "dict \<Rightarrow> string \<Rightarrow> json \<Rightarrow> json" where
  "get_default d k v0 = (case map_of d k of None \<Rightarrow> v0 | Some v \<Rightarrow> v)"

text \<open>What a \<open>for\<close> loop over a loaded value visits: the elements of a list, the
  one-character strings of a string, the keys of a dict; anything else is not iterable.\<close>

fun py_iter :: "json \<Rightarrow> error + json list" where
  "py_iter (JArr xs) = Inr xs"
| "py_iter (JStr s) = Inr (map (\<lambda>c. JStr [c]) s)"
| "py_iter (JObj d) = Inr (map (\<lambda>kv. JStr (fst kv)) d)"
| "py_iter v = Inl (not_iterable v)"

subsection \<open>The tokenizer\<close>

text \<open>\<open>WORD_RE.findall\<close>: skip to the next letter, take the longest run of letters,
  go on after it.\<close>

function WORD_RE_findall :: "string \<Rightarrow> string list" where
  "WORD_RE_findall s =
     (case dropWhile (\<lambda>c. \<not> is_alpha c) s of
        [] \<Rightarrow> []
      | c # r \<Rightarrow> takeWhile is_alpha (c # r) # WORD_RE_findall (dropWhile is_alpha (c # r)))"
  by pat_completeness auto
termination
proof (relation "measure length")
  show "wf (measure length)" by simp
next
  fix s :: string and c r
  assume h: "dropWhile (\<lambda>c. \<not> is_alpha c) s = c # r"
  have "is_alpha c"
    using hd_dropWhile [of "\<lambda>c. \<not> is_alpha c" s] h by simp
  then have "length (dropWhile is_alpha (c # r)) \<le> length r"
    by (simp add: length_dropWhile_le)
  moreover have "length (c # r) \<le> length s"
    using length_dropWhile_le [of "\<lambda>c. \<not> is_alpha c" s] h by simp
  ultimately show "(dropWhile is_alpha (c # r), s) \<in> measure length"
    by simp
qed

text \<open>\<open>tokenize(txt)\<close>: \<open>(txt or "").lower()\<close> raises on a truthy value that is no string.\<close>

definition tokenize :: "json \<Rightarrow> error + string list" where
  "tokenize txt =
     (case py_or txt (JStr '''') of
        JStr s \<Rightarrow> Inr (WORD_RE_findall (lower s))
      | v \<Rightarrow> Inl (no_attribute v ''lower''))"

subsection \<open>Abstract statistics\<close>

definition is_terminator :: "char \<Rightarrow> bool" where
  "is_terminator c = (c = CHR ''.'' \<or> c = CHR ''!'' \<or> c = CHR ''?'')"

text \<open>\<open>re.split(r"[.!?]+", text)\<close>: the text up to the next run of terminators is a
  segment, the run is dropped, and what follows the last run (possibly nothing) is the
  last segment.\<close>

function re_split :: "string \<Rightarrow> string list" where
  "re_split s =
     (case dropWhile (\<lambda>c. \<not> is_terminator c) s of
        [] \<Rightarrow> [s]
      | c # r \<Rightarrow> takeWhile (\<lambda>c. \<not> is_terminator c) s
                 # re_split (dropWhile is_terminator (c # r)))"
  by pat_completeness auto
termination
proof (relation "measure length")
  show "wf (measure length)" by simp
next
  fix s :: string and c r
  assume h: "dropWhile (\<lambda>c. \<not> is_terminator c) s = c # r"
  have "is_terminator c"
    using hd_dropWhile [of "\<lambda>c. \<not> is_terminator c" s] h by simp
  then have "length (dropWhile is_terminator (c # r)) \<le> length r"
    by (simp add: length_dropWhile_le)
  moreover have "length (c # r) \<le> length s"
    using length_dropWhile_le [of "\<lambda>c. \<not> is_terminator c" s] h by simp
  ultimately show "(dropWhile is_terminator (c # r), s) \<in> measure length"
    by simp
qed

text \<open>The list \<open>sents\<close> of \<open>abstract_stats\<close>.\<close>

definition sentences :: "string \<Rightarrow> string list" where
  "sentences text = filter (\<lambda>s. strip s \<noteq> []) (re_split text)"

text \<open>\<open>abstract_stats(p)\<close>. A truthy abstract that is no string makes \<open>tokenize\<close> raise
  before the split is reached.\<close>

definition abstract_stats :: "dict \<Rightarrow> error + dict" where
  "abstract_stats p =
     (let text = py_or (get_default p ''abstract'' (JStr '''')) (JStr '''') in
      case tokenize text of
        Inl e \<Rightarrow> Inl e
      | Inr words \<Rightarrow>
          (case text of
             JStr s \<Rightarrow>
               Inr [(''total_words'', JNum (int (length words))),
                    (''unique_words'', JNum (int (card (set words)))),
                    (''total_sentences'', JNum (int (length (sentences s))))]
           | v \<Rightarrow> Inl (expected_string v)))"

subsection \<open>Counting whole-word occurrences\<close>

text \<open>The pattern of \<open>count_terms\<close> is \<open>\b\<close>, the escaped term as a literal, \<open>\b\<close>,
  compiled with \<open>re.IGNORECASE\<close>. \<open>\b\<close> holds at a position when exactly one of the
  characters before and after it is a word character (the ends of the text count as
  non-word).\<close>

definition word_at :: "string \<Rightarrow> nat \<Rightarrow> bool" where
  "word_at s i = (i < length s \<and> is_word (s ! i))"

definition boundary :: "string \<Rightarrow> nat \<Rightarrow> bool" where
  "boundary s i = ((0 < i \<and> word_at s (i - 1)) \<noteq> word_at s i)"

definition literal_at :: "string \<Rightarrow> string \<Rightarrow> nat \<Rightarrow> bool" where
  "literal_at t s i =
     (i + length t \<le> length s \<and> lower (take (length t) (drop i s)) = lower t)"

definition pat_match_at :: "string \<Rightarrow> string \<Rightarrow> nat \<Rightarrow> bool" where
  "pat_match_at t s i = (boundary s i \<and> literal_at t s i \<and> boundary s (i + length t))"

text \<open>\<open>pat.findall\<close> scans from the left: a match is counted and the scan goes on after
  it (one position further when the match is empty), otherwise the scan moves one position.
  \<open>pat_scan t s i\<close> is the number of matches found from position \<open>i\<close> on.\<close>

function pat_scan :: "string \<Rightarrow> string \<Rightarrow> nat \<Rightarrow> nat" where
  "pat_scan t s i =
     (if length s < i then 0
      else if pat_match_at t s i then Suc (pat_scan t s (i + max 1 (length t)))
      else pat_scan t s (Suc i))"
  by pat_completeness auto
termination
  by (relation "measure (\<lambda>(t, s, i). Suc (length s) - i)") auto

text \<open>\<open>len(pat.findall(s))\<close>.\<close>

definition pat_count :: "string \<Rightarrow> string \<Rightarrow> nat" where
  "pat_count t s = pat_scan t s 0"

text \<open>One of the two \<open>if k in haystack\<close> blocks of the loop body: it adds the count to
  \<open>total\<close> and raises the flag of the field; \<open>findall\<close> raises on a value that is no string.\<close>

definition count_field ::
  "dict \<Rightarrow> string \<Rightarrow> string \<Rightarrow> nat \<times> bool \<Rightarrow> error + (nat \<times> bool)" where
  "count_field haystack k t st =
     (case map_of haystack k of
        None \<Rightarrow> Inr st
      | Some (JStr s) \<Rightarrow>
          (let c = pat_count t s in Inr (fst st + c, snd st \<or> 0 < c))
      | Some v \<Rightarrow> Inl (expected_string v))"

text \<open>The loop over the terms, on the state \<open>(total, in_title, in_abs)\<close>.\<close>

fun count_loop ::
  "dict \<Rightarrow> string list \<Rightarrow> nat \<times> bool \<times> bool \<Rightarrow> error + (nat \<times> bool \<times> bool)" where
  "count_loop haystack [] st = Inr st"
| "count_loop haystack (t # ts) (tot, in_title, in_abs) =
     (case count_field haystack ''title'' t (tot, in_title) of
        Inl e \<Rightarrow> Inl e
      | Inr (total1, in_title1) \<Rightarrow>
          (case count_field haystack ''abstract'' t (total1, in_abs) of
             Inl e \<Rightarrow> Inl e
           | Inr (total2, in_abs1) \<Rightarrow> count_loop haystack ts (total2, in_title1, in_abs1)))"

text \<open>\<open>count_terms(haystack, terms)\<close>, returning \<open>(total, where)\<close>.\<close>

definition count_terms :: "dict \<Rightarrow> string list \<Rightarrow> error + (nat \<times> string list)" where
  "count_terms haystack terms =
     (case count_loop haystack terms (0, False, False) of
        Inl e \<Rightarrow> Inl e
      | Inr (tot, in_title, in_abs) \<Rightarrow>
          Inr (tot, (if in_title then [''title''] else [])
                      @ (if in_abs then [''abstract''] else [])))"

subsection \<open>The document store\<close>

text \<open>What \<open>open\<close> and \<open>json.load\<close> find at \<open>PAPERS_JSON\<close>: no file, a file that is
  not JSON (with the decoder's message), or a JSON document.\<close>

datatype papers_file = FileNotFound | Malformed string | Parsed json

text \<open>\<open>load_json\<close> catches \<open>FileNotFoundError\<close> only.\<close>

fun load_json :: "papers_file \<Rightarrow> error + json" where
  "load_json FileNotFound = Inr JNull"
| "load_json (Malformed msg) = Inl (JSONDecodeError msg)"
| "load_json (Parsed v) = Inr v"

record datastore =
  papers :: "dict list"
  by_id :: "string \<rightharpoonup> dict"

text \<open>The loop of \<open>DataStore.__init__\<close>: \<open>p.get\<close> raises on an element that is no dict,
  so a store that is built holds dicts only.\<close>

fun index_papers ::
  "json list \<Rightarrow> (string \<rightharpoonup> dict) \<Rightarrow> error + (dict list \<times> (string \<rightharpoonup> dict))" where
  "index_papers [] idx = Inr ([], idx)"
| "index_papers (p # ps) idx =
     (case p of
        JObj d \<Rightarrow>
          (let aid = py_or (get d ''arxiv_id'') (get d ''id'');
               idx1 = (case aid of JStr a \<Rightarrow> idx(a \<mapsto> d) | _ \<Rightarrow> idx)
           in case index_papers ps idx1 of
                Inl e \<Rightarrow> Inl e
              | Inr (ds, idx2) \<Rightarrow> Inr (d # ds, idx2))
      | v \<Rightarrow> Inl (no_attribute v ''get''))"

text \<open>\<open>DataStore()\<close>, run once when the module is loaded; an exception here ends the
  process before any server exists.\<close>

definition DataStore_init :: "papers_file \<Rightarrow> error + datastore" where
  "DataStore_init file =
     (case load_json file of
        Inl e \<Rightarrow> Inl e
      | Inr v \<Rightarrow>
          (case py_iter (py_or v (JArr [])) of
             Inl e \<Rightarrow> Inl e
           | Inr ps \<Rightarrow>
               (case index_papers ps Map.empty of
                  Inl e \<Rightarrow> Inl e
                | Inr (ds, idx) \<Rightarrow> Inr \<lparr>papers = ds, by_id = idx\<rparr>)))"

definition exists :: "datastore \<Rightarrow> bool" where
  "exists st = (papers st \<noteq> [])"

subsection \<open>Requests and responses\<close>

text \<open>A request as the handler sees it: the method, \<open>urlparse(self.path).path\<close> and
  \<open>parse_qs(parsed.query)\<close>.\<close>

record request =
  command :: string
  path :: string
  query :: "(string \<times> string list) list"

text \<open>\<open>send_json(h, obj, status)\<close>.\<close>

record response =
  status :: nat
  body :: json

definition send_json :: "json \<Rightarrow> nat \<Rightarrow> response" where
  "send_json obj st = \<lparr>status = st, body = obj\<rparr>"

fun str_error :: "error \<Rightarrow> string" where
  "str_error (JSONDecodeError m) = m"
| "str_error (AttributeError m) = m"
| "str_error (TypeError m) = m"
| "str_error (IndexError m) = m"

text \<open>\<open>path.strip("/").split("/")\<close>, the empty pieces dropped, each piece unquoted.\<close>

definition strip_char :: "char \<Rightarrow> string \<Rightarrow> string" where
  "strip_char x s = rev (dropWhile (\<lambda>c. c = x) (rev (dropWhile (\<lambda>c. c = x) s)))"

fun split_on :: "char \<Rightarrow> string \<Rightarrow> string list" where
  "split_on sep [] = [[]]"
| "split_on sep (c # cs) =
     (if c = sep then [] # split_on sep cs
      else (case split_on sep cs of [] \<Rightarrow> [[c]] | w # ws \<Rightarrow> (c # w) # ws))"

definition path_parts :: "(string \<Rightarrow> string) \<Rightarrow> string \<Rightarrow> string list" where
  "path_parts unquote pth =
     map unquote (filter (\<lambda>x. x \<noteq> []) (split_on (CHR ''/'') (strip_char (CHR ''/'') pth)))"

text \<open>\<open>p.get("arxiv_id") or p.get("id","")\<close>.\<close>

definition paper_id :: "dict \<Rightarrow> json" where
  "paper_id p = py_or (get p ''arxiv_id'') (get_default p ''id'' (JStr ''''))"

subsection \<open>GET /papers and GET /papers/\{arxiv\_id\}\<close>

definition paper_row :: "dict \<Rightarrow> json" where
  "paper_row p =
     JObj [(''arxiv_id'', paper_id p),
           (''title'', get_default p ''title'' (JStr '''')),
           (''authors'', get_default p ''authors'' (JArr [])),
           (''categories'', get_default p ''categories'' (JArr []))]"

definition get_papers :: "datastore \<Rightarrow> response" where
  "get_papers st = send_json (JArr (map paper_row (papers st))) 200"

definition get_paper :: "datastore \<Rightarrow> string \<Rightarrow> error + response" where
  "get_paper st aid =
     (case by_id st aid of
        None \<Rightarrow>
          Inr (send_json (JObj [(''error'', JStr ''unknown paper id''),
                                (''arxiv_id'', JStr aid)]) 404)
      | Some p \<Rightarrow>
          (if p = [] then
             Inr (send_json (JObj [(''error'', JStr ''unknown paper id''),
                                   (''arxiv_id'', JStr aid)]) 404)
           else
             (case abstract_stats p of
                Inl e \<Rightarrow> Inl e
              | Inr stats \<Rightarrow>
                  Inr (send_json
                         (JObj [(''arxiv_id'', paper_id p),
                                (''title'', get_default p ''title'' (JStr '''')),
                                (''authors'', get_default p ''authors'' (JArr [])),
                                (''abstract'', get_default p ''abstract'' (JStr '''')),
                                (''categories'', get_default p ''categories'' (JArr [])),
                                (''published'',
                                   py_or (py_or (get p ''published'') (get p ''updated''))
                                         (JStr '''')),
                                (''abstract_stats'', JObj stats)]) 200))))"

subsection \<open>GET /search\<close>

text \<open>\<open>parse_qs(parsed.query).get("q", [""])[0]\<close>.\<close>

definition query_q :: "(string \<times> string list) list \<Rightarrow> error + string" where
  "query_q qs =
     (case map_of qs ''q'' of
        None \<Rightarrow> Inr ''''
      | Some [] \<Rightarrow> Inl (IndexError ''list index out of range'')
      | Some (v # vs) \<Rightarrow> Inr v)"

definition search_result :: "dict \<Rightarrow> nat \<Rightarrow> string list \<Rightarrow> json" where
  "search_result p score wh =
     JObj [(''arxiv_id'', paper_id p),
           (''title'', get_default p ''title'' (JStr '''')),
           (''match_score'', JNum (int score)),
           (''matches_in'', JArr (map JStr wh))]"

text \<open>The haystack \<open>hay\<close> built for a paper.\<close>

definition hay :: "dict \<Rightarrow> dict" where
  "hay p = [(''title'', get_default p ''title'' (JStr '''')),
            (''abstract'', get_default p ''abstract'' (JStr ''''))]"

text \<open>The loop over \<open>DATA.papers\<close> that fills \<open>results\<close>.\<close>

fun search_loop :: "dict list \<Rightarrow> string list \<Rightarrow> error + json list" where
  "search_loop [] terms = Inr []"
| "search_loop (p # ps) terms =
     (case count_terms (hay p) terms of
        Inl e \<Rightarrow> Inl e
      | Inr (score, wh) \<Rightarrow>
          (case search_loop ps terms of
             Inl e \<Rightarrow> Inl e
           | Inr rs \<Rightarrow> Inr ((if 0 < score then [search_result p score wh] else []) @ rs)))"

text \<open>The message \<open>missing query parameter 'q'\<close>, the quotes written as characters.\<close>

definition missing_q :: string where
  "missing_q = ''missing query parameter '' @ [CHR 0x27] @ ''q'' @ [CHR 0x27]"

definition get_search :: "datastore \<Rightarrow> request \<Rightarrow> error + response" where
  "get_search st req =
     (case query_q (query req) of
        Inl e \<Rightarrow> Inl e
      | Inr v \<Rightarrow>
          (let q = strip v in
           if q = [] then
             Inr (send_json (JObj [(''error'', JStr missing_q)]) 400)
           else
             (case tokenize (JStr q) of
                Inl e \<Rightarrow> Inl e
              | Inr terms \<Rightarrow>
                  (if terms = [] then
                     Inr (send_json (JObj [(''error'', JStr ''malformed query'')]) 400)
                   else
                     (case search_loop (papers st) terms of
                        Inl e \<Rightarrow> Inl e
                      | Inr results \<Rightarrow>
                          Inr (send_json (JObj [(''query'', JStr q),
                                                (''results'', JArr results)]) 200))))))"

subsection \<open>GET /stats\<close>

text \<open>\<open>freq[w] = freq.get(w, 0) + 1\<close> on a dict kept in insertion order.\<close>

fun bump :: "string \<Rightarrow> (string \<times> nat) list \<Rightarrow> (string \<times> nat) list" where
  "bump w [] = [(w, 1)]"
| "bump w ((k, n) # kvs) = (if k = w then (k, Suc n) # kvs else (k, n) # bump w kvs)"

text \<open>The keys of \<open>cat\<close> are whatever the category lists hold. Lists and dicts cannot be
  keys; \<open>True\<close> and \<open>1\<close>, \<open>False\<close> and \<open>0\<close> are the same key.\<close>

fun hashable :: "json \<Rightarrow> bool" where
  "hashable (JArr xs) = False"
| "hashable (JObj d) = False"
| "hashable v = True"

fun key_eq :: "json \<Rightarrow> json \<Rightarrow> bool" where
  "key_eq (JBool b) (JNum n) = (n = (if b then 1 else 0))"
| "key_eq (JNum n) (JBool b) = (n = (if b then 1 else 0))"
| "key_eq a b = (a = b)"

fun bump_cat :: "json \<Rightarrow> (json \<times> nat) list \<Rightarrow> (json \<times> nat) list" where
  "bump_cat c [] = [(c, 1)]"
| "bump_cat c ((k, n) # kvs) =
     (if key_eq k c then (k, Suc n) # kvs else (k, n) # bump_cat c kvs)"

fun cat_loop :: "json list \<Rightarrow> (json \<times> nat) list \<Rightarrow> error + (json \<times> nat) list" where
  "cat_loop [] cat = Inr cat"
| "cat_loop (c # cs) cat =
     (if hashable c then cat_loop cs (bump_cat c cat) else Inl (unhashable c))"

text \<open>The loop over \<open>DATA.papers\<close>, on the state \<open>(total_words, uniq, freq, cat)\<close>.\<close>

fun stats_loop ::
  "dict list \<Rightarrow> nat \<times> string set \<times> (string \<times> nat) list \<times> (json \<times> nat) list
     \<Rightarrow> error + (nat \<times> string set \<times> (string \<times> nat) list \<times> (json \<times> nat) list)" where
  "stats_loop [] st = Inr st"
| "stats_loop (p # ps) (total_words, uniq, freq, cat) =
     (case tokenize (get_default p ''abstract'' (JStr '''')) of
        Inl e \<Rightarrow> Inl e
      | Inr words \<Rightarrow>
          (case py_iter (get_default p ''categories'' (JArr [])) of
             Inl e \<Rightarrow> Inl e
           | Inr cs \<Rightarrow>
               (case cat_loop cs cat of
                  Inl e \<Rightarrow> Inl e
                | Inr cat1 \<Rightarrow>
                    stats_loop ps (total_words + length words, uniq \<union> set words,
                                   fold bump words freq, cat1))))"

text \<open>\<open>sorted(freq.items(), key=lambda x: (-x[1], x[0]))[:10]\<close>.\<close>

definition top_key :: "string \<times> nat \<Rightarrow> int \<times> string" where
  "top_key x = (- int (snd x), fst x)"

definition top_10 :: "(string \<times> nat) list \<Rightarrow> (string \<times> nat) list" where
  "top_10 freq = take 10 (sort_key top_key freq)"

text \<open>How \<open>json.dumps\<close> writes the keys of \<open>cat\<close>.\<close>

fun show_nat :: "nat \<Rightarrow> string" where
  "show_nat n =
     (if n < 10 then [char_of (48 + n)]
      else show_nat (n div 10) @ [char_of (48 + n mod 10)])"

definition show_int :: "int \<Rightarrow> string" where
  "show_int i = (if i < 0 then CHR ''-'' # show_nat (nat (- i)) else show_nat (nat i))"

fun dumps_key :: "json \<Rightarrow> string" where
  "dumps_key (JStr s) = s"
| "dumps_key (JBool b) = (if b then ''true'' else ''false'')"
| "dumps_key JNull = ''null''"
| "dumps_key (JNum n) = show_int n"
| "dumps_key v = ''''"

definition get_stats :: "datastore \<Rightarrow> error + response" where
  "get_stats st =
     (case stats_loop (papers st) (0, {}, [], []) of
        Inl e \<Rightarrow> Inl e
      | Inr (total_words, uniq, freq, cat) \<Rightarrow>
          Inr (send_json
                 (JObj [(''total_papers'', JNum (int (length (papers st)))),
                        (''total_words'', JNum (int total_words)),
                        (''unique_words'', JNum (int (card uniq))),
                        (''top_10_words'',
                           JArr (map (\<lambda>x. JObj [(''word'', JStr (fst x)),
                                                 (''frequency'', JNum (int (snd x)))])
                                     (top_10 freq))),
                        (''category_distribution'',
                           JObj (map (\<lambda>x. (dumps_key (fst x), JNum (int (snd x)))) cat))])
                 200))"

subsection \<open>The handler\<close>

text \<open>The body of the \<open>try\<close> block of \<open>Handler.do_GET\<close>.\<close>

definition do_GET_try :: "(string \<Rightarrow> string) \<Rightarrow> datastore \<Rightarrow> request \<Rightarrow> error + response" where
  "do_GET_try unquote st req =
     (if \<not> exists st then
        Inr (send_json (JObj [(''error'', JStr ''papers.json not found or empty'')]) 500)
      else
        (let parts = path_parts unquote (path req) in
         if path req = ''/papers'' \<and> length parts = 1 then Inr (get_papers st)
         else if length parts = 2 \<and> parts ! 0 = ''papers'' then get_paper st (parts ! 1)
         else if path req = ''/search'' \<and> length parts = 1 then get_search st req
         else if path req = ''/stats'' \<and> length parts = 1 then get_stats st
         else Inr (send_json (JObj [(''error'', JStr ''endpoint not found'')]) 404)))"

text \<open>\<open>Handler.do_GET\<close>: the \<open>except Exception\<close> clause turns an exception into a 500.\<close>

definition do_GET :: "(string \<Rightarrow> string) \<Rightarrow> datastore \<Rightarrow> request \<Rightarrow> response" where
  "do_GET unquote st req =
     (case do_GET_try unquote st req of
        Inl e \<Rightarrow>
          send_json (JObj [(''error'', JStr ''internal server error''),
                           (''detail'', JStr (str_error e))]) 500
      | Inr r \<Rightarrow> r)"

text \<open>\<open>Handler\<close> defines \<open>do_GET\<close> and no other \<open>do_\<close> method. The base class
  \<open>BaseHTTPRequestHandler\<close> calls \<open>do_<command>\<close> when the handler has it and otherwise
  answers with \<open>send_error(501)\<close>, an error page of the library.\<close>

datatype reply = Json_reply response | Error_page nat

definition handle_one_request :: "(string \<Rightarrow> string) \<Rightarrow> datastore \<Rightarrow> request \<Rightarrow> reply" where
  "handle_one_request unquote st req =
     (if command req = ''GET'' then Json_reply (do_GET unquote st req) else Error_page 501)"

fun reply_status :: "reply \<Rightarrow> nat" where
  "reply_status (Json_reply r) = status r"
| "reply_status (Error_page n) = n"

text \<open>The process: the store is built when the module is loaded, then every request is
  handled against it. \<open>Inl\<close> is the exception that ends the process at start-up.\<close>

definition serve :: "(string \<Rightarrow> string) \<Rightarrow> papers_file \<Rightarrow> request \<Rightarrow> error + reply" where
  "serve unquote file req =
     (case DataStore_init file of
        Inl e \<Rightarrow> Inl e
      | Inr st \<Rightarrow> Inr (handle_one_request unquote st req))"

section \<open>Notions used to state the properties\<close>

subsection \<open>Runs and segments\<close>



subsection \<open>Whole-word occurrences\<close>



subsection \<open>Papers with textual fields\<close>

text \<open>The field \<open>k\<close> of a paper is a string or is absent (the handler then takes the empty
  string); \<open>field_text\<close> is that string. A paper is \<open>well_typed\<close> when this holds of its
  title and of its abstract, as the data model has it.\<close>

definition str_field :: "dict \<Rightarrow> string \<Rightarrow> bool" where
  "str_field p k = (case get_default p k (JStr '''') of JStr s \<Rightarrow> True | _ \<Rightarrow> False)"

definition field_text :: "dict \<Rightarrow> string \<Rightarrow> string" where
  "field_text p k = (case get_default p k (JStr '''') of JStr s \<Rightarrow> s | _ \<Rightarrow> '''')"

definition well_typed :: "dict \<Rightarrow> bool" where
  "well_typed p = (str_field p ''title'' \<and> str_field p ''abstract'')"

text \<open>The score of a paper: over all terms, the occurrences in the title plus those in the
  abstract. The fields in which some term occurs.\<close>

definition match_score :: "dict \<Rightarrow> string list \<Rightarrow> nat" where
  "match_score p terms =
     sum_list (map (\<lambda>t. pat_count t (field_text p ''title'')
                       + pat_count t (field_text p ''abstract'')) terms)"

definition matches_in :: "dict \<Rightarrow> string list \<Rightarrow> string list" where
  "matches_in p terms =
     (if list_ex (\<lambda>t. 0 < pat_count t (field_text p ''title'')) terms then [''title''] else [])
     @ (if list_ex (\<lambda>t. 0 < pat_count t (field_text p ''abstract'')) terms
        then [''abstract''] else [])"

subsection \<open>Reading a response\<close>

text \<open>The member \<open>k\<close> of a JSON object.\<close>

definition field :: "json \<Rightarrow> string \<Rightarrow> json option" where
  "field v k = (case v of JObj d \<Rightarrow> map_of d k | _ \<Rightarrow> None)"

text \<open>A search result whose \<open>matches_in\<close> is a non-empty array.\<close>

definition has_matches_in :: "json \<Rightarrow> bool" where
  "has_matches_in r =
     (case r of
        JObj d \<Rightarrow> (case map_of d ''matches_in'' of Some (JArr ws) \<Rightarrow> ws \<noteq> [] | _ \<Rightarrow> False)
      | _ \<Rightarrow> False)"

subsection \<open>The words of the corpus and their ranking\<close>

text \<open>The tokens of a paper's abstract (none when \<open>tokenize\<close> raises) and the tokens of
  all abstracts, in corpus order.\<close>

definition abstract_tokens :: "dict \<Rightarrow> string list" where
  "abstract_tokens p =
     (case tokenize (get_default p ''abstract'' (JStr '''')) of Inr ws \<Rightarrow> ws | Inl e \<Rightarrow> [])"

definition corpus_words :: "dict list \<Rightarrow> string list" where
  "corpus_words ps = concat (map abstract_tokens ps)"

text \<open>The pair \<open>x\<close> comes before \<open>y\<close>: its frequency is higher, or the frequencies are
  equal and its word is lexicographically smaller.\<close>

definition ranks_before :: "string \<times> nat \<Rightarrow> string \<times> nat \<Rightarrow> bool" where
  "ranks_before x y = (snd y < snd x \<or> (snd x = snd y \<and> fst x < fst y))"

definition word_entry :: "string \<times> nat \<Rightarrow> json" where
  "word_entry x = JObj [(''word'', JStr (fst x)), (''frequency'', JNum (int (snd x)))]"

subsection \<open>Routes and fields\<close>

text \<open>The paths of the four endpoints: the three literal ones, and the paths with two
  parts of which the first is \<open>papers\<close>.\<close>

definition recognized :: "(string \<Rightarrow> string) \<Rightarrow> string \<Rightarrow> bool" where
  "recognized unquote pth =
     (pth = ''/papers'' \<or> pth = ''/search'' \<or> pth = ''/stats''
      \<or> (case path_parts unquote pth of [a, b] \<Rightarrow> a = ''papers'' | _ \<Rightarrow> False))"

text \<open>The fields of a paper that the data model names, and a paper cut down to them.\<close>

definition recognized_fields :: "string list" where
  "recognized_fields =
     [''arxiv_id'', ''id'', ''title'', ''authors'', ''abstract'', ''categories'',
      ''published'', ''updated'']"

definition known_fields :: "dict \<Rightarrow> dict" where
  "known_fields d = filter (\<lambda>kv. fst kv \<in> set recognized_fields) d"

definition has_id :: "dict \<Rightarrow> bool" where
  "has_id d = (map_of d ''arxiv_id'' \<noteq> None \<or> map_of d ''id'' \<noteq> None)"

subsection \<open>A small corpus\<close>

text \<open>Three papers, the third identified by \<open>id\<close> and without a title, and the store that
  \<open>DataStore\<close> builds from them.\<close>

definition paper1 :: dict where
  "paper1 = [(''arxiv_id'', JStr ''1''), (''title'', JStr ''Deep nets''),
             (''abstract'', JStr ''We train deep networks. Deep!'')]"

definition paper2 :: dict where
  "paper2 = [(''arxiv_id'', JStr ''2''), (''title'', JStr ''Deepest sea''),
             (''abstract'', JStr ''Fish.'')]"

definition paper3 :: dict where
  "paper3 = [(''id'', JStr ''3''), (''abstract'', JStr ''A deep result'')]"

definition sample_store :: datastore where
  "sample_store =
     \<lparr>papers = [paper1, paper2, paper3],
      by_id = [''1'' \<mapsto> paper1, ''2'' \<mapsto> paper2, ''3'' \<mapsto> paper3]\<rparr>"

definition sample_search :: request where
  "sample_search = \<lparr>command = ''GET'', path = ''/search'', query = [(''q'', ['' deep ''])]\<rparr>"

section \<open>Properties\<close>

subsection \<open>Characters\<close>



lemma is_digit_nat: "is_digit c = (48 \<le> (of_char c :: nat) \<and> (of_char c :: nat) \<le> 57)"
  by (simp add: is_digit_def less_eq_char_def)



subsection \<open>The tokenizer\<close>

declare WORD_RE_findall.simps [simp del]

lemma findall_Nil:
  assumes "dropWhile (\<lambda>c. \<not> is_alpha c) s = []"
  shows "WORD_RE_findall s = []"
  by (subst WORD_RE_findall.simps) (simp only: assms list.case)








subsection \<open>Sentences\<close>

declare re_split.simps [simp del]







subsection \<open>Whole-word occurrences\<close>

declare pat_scan.simps [simp del]







subsection \<open>Scores and matched fields\<close>

lemma count_field_mono:
  assumes "count_field haystack k t (n, f) = Inr (n1, f1)"
  shows "n \<le> n1 \<and> f1 = (f \<or> n < n1)"
  using assms
  by (auto simp add: count_field_def Let_def split: option.splits json.splits)

lemma count_loop_invariant:
  assumes "count_loop haystack ts (n, a, b) = Inr (n', a', b')" "(0 < n) = (a \<or> b)"
  shows "(0 < n') = (a' \<or> b')"
  using assms
proof (induction ts arbitrary: n a b)
  case Nil
  then show ?case by simp
next
  case (Cons t ts)
  from Cons.prems(1) obtain n1 a1 where
    f1: "count_field haystack ''title'' t (n, a) = Inr (n1, a1)"
    by (auto split: sum.splits)
  from Cons.prems(1) f1 obtain n2 b1 where
    f2: "count_field haystack ''abstract'' t (n1, b) = Inr (n2, b1)"
    by (auto split: sum.splits)
  have rest: "count_loop haystack ts (n2, a1, b1) = Inr (n', a', b')"
    using Cons.prems(1) f1 f2 by simp
  have "(0 < n2) = (a1 \<or> b1)"
    using count_field_mono [OF f1] count_field_mono [OF f2] Cons.prems(2) by auto
  then show ?case
    using Cons.IH [OF rest] by simp
qed

lemma count_terms_positive:
  assumes "count_terms haystack terms = Inr (n, wh)"
  shows "(0 < n) = (wh \<noteq> [])"
proof -
  from assms obtain a b where
    l: "count_loop haystack terms (0, False, False) = Inr (n, a, b)"
    and w: "wh = (if a then [''title''] else []) @ (if b then [''abstract''] else [])"
    by (auto simp add: count_terms_def split: sum.splits)
  have "(0 < n) = (a \<or> b)"
    using count_loop_invariant [OF l] by simp
  then show ?thesis using w by auto
qed

lemma count_loop_strings:
  assumes "map_of haystack ''title'' = Some (JStr a)" "map_of haystack ''abstract'' = Some (JStr b)"
  shows "count_loop haystack ts (n, x, y) =
         Inr (n + sum_list (map (\<lambda>t. pat_count t a + pat_count t b) ts),
              x \<or> list_ex (\<lambda>t. 0 < pat_count t a) ts,
              y \<or> list_ex (\<lambda>t. 0 < pat_count t b) ts)"
proof (induction ts arbitrary: n x y)
  case Nil
  show ?case by simp
next
  case (Cons t ts)
  have f1: "count_field haystack ''title'' t (n, x) = Inr (n + pat_count t a, x \<or> 0 < pat_count t a)"
    using assms(1) by (simp add: count_field_def Let_def)
  have f2: "count_field haystack ''abstract'' t (n + pat_count t a, y) =
            Inr (n + pat_count t a + pat_count t b, y \<or> 0 < pat_count t b)"
    using assms(2) by (simp add: count_field_def Let_def)
  show ?case
    by (simp only: count_loop.simps f1 f2 sum.case prod.case Cons.IH)
       (auto simp add: add.assoc)
qed

lemma count_terms_strings:
  assumes "map_of haystack ''title'' = Some (JStr a)" "map_of haystack ''abstract'' = Some (JStr b)"
  shows "count_terms haystack ts =
         Inr (sum_list (map (\<lambda>t. pat_count t a + pat_count t b) ts),
              (if list_ex (\<lambda>t. 0 < pat_count t a) ts then [''title''] else [])
              @ (if list_ex (\<lambda>t. 0 < pat_count t b) ts then [''abstract''] else []))"
  by (simp add: count_terms_def count_loop_strings [OF assms])

lemma count_terms_hay:
  assumes "well_typed p"
  shows "count_terms (hay p) terms = Inr (match_score p terms, matches_in p terms)"
proof -
  obtain a where a: "get_default p ''title'' (JStr '''') = JStr a"
    using assms by (auto simp add: well_typed_def str_field_def split: json.splits)
  obtain b where b: "get_default p ''abstract'' (JStr '''') = JStr b"
    using assms by (auto simp add: well_typed_def str_field_def split: json.splits)
  have "map_of (hay p) ''title'' = Some (JStr a)" "map_of (hay p) ''abstract'' = Some (JStr b)"
    using a b by (simp_all add: hay_def)
  then show ?thesis
    using a b by (simp add: count_terms_strings match_score_def matches_in_def field_text_def)
qed




subsection \<open>Search requests\<close>

lemma search_loop_filter:
  assumes "list_all well_typed ps"
  shows "search_loop ps terms =
         Inr (map (\<lambda>p. search_result p (match_score p terms) (matches_in p terms))
                  (filter (\<lambda>p. 0 < match_score p terms) ps))"
  using assms by (induction ps) (simp_all add: count_terms_hay)

lemma search_loop_matches_in:
  assumes "search_loop ps terms = Inr rs"
  shows "list_all has_matches_in rs"
  using assms
proof (induction ps arbitrary: rs)
  case Nil
  then show ?case by simp
next
  case (Cons p ps)
  from Cons.prems obtain n wh where c: "count_terms (hay p) terms = Inr (n, wh)"
    by (auto split: sum.splits)
  from Cons.prems c obtain rs' where r: "search_loop ps terms = Inr rs'"
    by (auto split: sum.splits)
  have rs: "rs = (if 0 < n then [search_result p n wh] else []) @ rs'"
    using Cons.prems c r by simp
  have "0 < n \<Longrightarrow> has_matches_in (search_result p n wh)"
    using count_terms_positive [OF c] by (simp add: has_matches_in_def search_result_def)
  then show ?case
    using rs Cons.IH [OF r] by simp
qed

lemma parts_search: "path_parts unquote ''/search'' = [unquote ''search'']"
  by (simp add: path_parts_def strip_char_def)

lemma route_search:
  assumes "exists st" "path req = ''/search''"
  shows "do_GET_try unquote st req = get_search st req"
  using assms by (simp add: do_GET_try_def parts_search)

lemma get_search_200:
  assumes "get_search st req = Inr r" "status r = 200"
  shows "\<exists>q terms rs. search_loop (papers st) terms = Inr rs
           \<and> r = send_json (JObj [(''query'', JStr q), (''results'', JArr rs)]) 200"
  using assms
  by (auto simp add: get_search_def Let_def send_json_def split: sum.splits if_splits)

text \<open>C10. Whatever the haystack and the terms, when \<open>count_terms\<close> returns
  \<open>(total, where)\<close> then \<open>total > 0\<close> exactly when \<open>where\<close> is not empty. Hence every
  result in the body of a 200 response to \<open>/search\<close> has a non-empty \<open>matches_in\<close>.\<close>

theorem count_terms_matches_in:
  "(count_terms haystack terms = Inr (n, wh) \<longrightarrow> (0 < n) = (wh \<noteq> []))
   \<and> (exists st \<and> path req = ''/search'' \<and> status (do_GET unquote st req) = 200 \<longrightarrow>
        (\<exists>q rs. body (do_GET unquote st req) = JObj [(''query'', JStr q), (''results'', JArr rs)]
                \<and> list_all has_matches_in rs))"
proof (intro conjI impI)
  assume "count_terms haystack terms = Inr (n, wh)"
  then show "(0 < n) = (wh \<noteq> [])" by (rule count_terms_positive)
next
  assume h: "exists st \<and> path req = ''/search'' \<and> status (do_GET unquote st req) = 200"
  then have t: "do_GET_try unquote st req = get_search st req"
    using route_search by blast
  obtain r where r: "get_search st req = Inr r" "do_GET unquote st req = r"
    using h t by (cases "get_search st req") (auto simp add: do_GET_def send_json_def)
  then obtain q terms rs where
    s: "search_loop (papers st) terms = Inr rs"
    and b: "r = send_json (JObj [(''query'', JStr q), (''results'', JArr rs)]) 200"
    using get_search_200 [of st req r] h by auto
  show "\<exists>q rs. body (do_GET unquote st req) = JObj [(''query'', JStr q), (''results'', JArr rs)]
               \<and> list_all has_matches_in rs"
    using search_loop_matches_in [OF s] r(2) b by (auto simp add: send_json_def)
qed

theorem count_terms_matches_in_witness:
  "count_terms [(''title'', JStr ''Deep nets'')] [''deep''] = Inr (1, [''title''])
   \<and> exists sample_store \<and> path sample_search = ''/search''
   \<and> status (do_GET (\<lambda>x. x) sample_store sample_search) = 200
   \<and> (\<exists>q rs. body (do_GET (\<lambda>x. x) sample_store sample_search)
                 = JObj [(''query'', JStr q), (''results'', JArr rs)]
               \<and> list_all has_matches_in rs)"
proof -
  have a: "count_terms [(''title'', JStr ''Deep nets'')] [''deep''] = Inr (1, [''title''])"
    by code_simp
  have b: "exists sample_store" by code_simp
  have c: "path sample_search = ''/search''" by code_simp
  have d: "status (do_GET (\<lambda>x. x) sample_store sample_search) = 200" by code_simp
  show ?thesis
    using a b c d
      count_terms_matches_in [of "[(''title'', JStr ''Deep nets'')]" "[''deep'']" 1 "[''title'']"
        sample_store sample_search "\<lambda>x. x"]
    by blast
qed

text \<open>C5. For a corpus whose titles and abstracts are strings and a query that tokenizes to
  a non-empty list of terms, the results of \<open>/search\<close> are the papers whose
  \<open>match_score\<close> (the sum, over the terms, of the occurrences in the title and in the
  abstract) is positive, each with its score, in the order of the corpus: the results are
  the corpus filtered, not sorted.\<close>

theorem search_results_in_corpus_order:
  assumes "exists st" "path req = ''/search''"
    and "query_q (query req) = Inr v" "tokenize (JStr (strip v)) = Inr terms" "terms \<noteq> []"
    and "list_all well_typed (papers st)"
  shows "do_GET unquote st req =
         send_json
           (JObj [(''query'', JStr (strip v)),
                  (''results'',
                     JArr (map (\<lambda>p. search_result p (match_score p terms) (matches_in p terms))
                               (filter (\<lambda>p. 0 < match_score p terms) (papers st))))])
           200"
proof -
  have q: "strip v \<noteq> []"
  proof
    assume "strip v = []"
    then have "tokenize (JStr (strip v)) = Inr []"
      by (simp add: tokenize_def py_or_def lower_def findall_Nil)
    then show False using assms(4,5) by simp
  qed
  have "get_search st req =
        Inr (send_json
           (JObj [(''query'', JStr (strip v)),
                  (''results'',
                     JArr (map (\<lambda>p. search_result p (match_score p terms) (matches_in p terms))
                               (filter (\<lambda>p. 0 < match_score p terms) (papers st))))])
           200)"
    using q assms(3,4,5) search_loop_filter [OF assms(6), of terms]
    by (simp add: get_search_def Let_def)
  then show ?thesis
    using route_search [OF assms(1,2), of unquote] by (simp add: do_GET_def)
qed

theorem search_results_in_corpus_order_witness:
  "exists sample_store \<and> list_all well_typed (papers sample_store)
   \<and> tokenize (JStr (strip '' deep '')) = Inr [''deep'']
   \<and> do_GET (\<lambda>x. x) sample_store sample_search =
       send_json
         (JObj [(''query'', JStr ''deep''),
                (''results'',
                   JArr [JObj [(''arxiv_id'', JStr ''1''), (''title'', JStr ''Deep nets''),
                               (''match_score'', JNum 3),
                               (''matches_in'', JArr [JStr ''title'', JStr ''abstract''])],
                         JObj [(''arxiv_id'', JStr ''3''), (''title'', JStr ''''),
                               (''match_score'', JNum 1),
                               (''matches_in'', JArr [JStr ''abstract''])]])])
         200"
proof -
  have a: "exists sample_store" by code_simp
  have b: "path sample_search = ''/search''" by code_simp
  have c: "query_q (query sample_search) = Inr '' deep ''" by code_simp
  have d: "tokenize (JStr (strip '' deep '')) = Inr [''deep'']" by code_simp
  have e: "[''deep''] \<noteq> ([] :: string list)" by simp
  have f: "list_all well_typed (papers sample_store)" by code_simp
  have g: "strip '' deep '' = ''deep''" by code_simp
  have h: "map (\<lambda>p. search_result p (match_score p [''deep'']) (matches_in p [''deep'']))
               (filter (\<lambda>p. 0 < match_score p [''deep'']) (papers sample_store)) =
           [JObj [(''arxiv_id'', JStr ''1''), (''title'', JStr ''Deep nets''),
                  (''match_score'', JNum 3),
                  (''matches_in'', JArr [JStr ''title'', JStr ''abstract''])],
            JObj [(''arxiv_id'', JStr ''3''), (''title'', JStr ''''),
                  (''match_score'', JNum 1),
                  (''matches_in'', JArr [JStr ''abstract''])]]"
    by code_simp
  show ?thesis
    using a d f search_results_in_corpus_order [OF a b c d e f, of "\<lambda>x. x"]
    unfolding g h by simp
qed



subsection \<open>The frequency ranking\<close>

lemma parts_stats: "path_parts unquote ''/stats'' = [unquote ''stats'']"
  by (simp add: path_parts_def strip_char_def)

lemma route_stats:
  assumes "exists st" "path req = ''/stats''"
  shows "do_GET_try unquote st req = get_stats st"
  using assms by (simp add: do_GET_try_def parts_stats)

lemma stats_loop_freq:
  assumes "stats_loop ps (n, u, f, c) = Inr (n', u', f', c')"
  shows "f' = fold bump (corpus_words ps) f"
  using assms
proof (induction ps arbitrary: n u f c)
  case Nil
  then show ?case by (simp add: corpus_words_def)
next
  case (Cons p ps)
  from Cons.prems obtain ws where ws: "tokenize (get_default p ''abstract'' (JStr '''')) = Inr ws"
    by (auto split: sum.splits)
  from Cons.prems ws obtain cs where cs: "py_iter (get_default p ''categories'' (JArr [])) = Inr cs"
    by (auto split: sum.splits)
  from Cons.prems ws cs obtain c1 where c1: "cat_loop cs c = Inr c1"
    by (auto split: sum.splits)
  have "stats_loop ps (n + length ws, u \<union> set ws, fold bump ws f, c1) = Inr (n', u', f', c')"
    using Cons.prems ws cs c1 by simp
  then have "f' = fold bump (corpus_words ps) (fold bump ws f)"
    by (rule Cons.IH)
  then show ?case
    using ws by (simp add: corpus_words_def abstract_tokens_def)
qed

lemma map_of_bump:
  "map_of (bump w f) k =
     (if k = w then Some (case map_of f w of None \<Rightarrow> 1 | Some n \<Rightarrow> Suc n) else map_of f k)"
  by (induction w f rule: bump.induct) auto

lemma keys_bump: "fst ` set (bump w f) = insert w (fst ` set f)"
  by (induction w f rule: bump.induct) auto

lemma distinct_bump: "distinct (map fst f) \<Longrightarrow> distinct (map fst (bump w f))"
proof (induction w f rule: bump.induct)
  case (1 w)
  show ?case by simp
next
  case (2 w k n kvs)
  then show ?case
    using keys_bump [of w kvs] by (auto simp add: image_iff)
qed

lemma fold_bump:
  assumes "distinct (map fst f)"
  shows "distinct (map fst (fold bump ws f))
         \<and> fst ` set (fold bump ws f) = set ws \<union> fst ` set f
         \<and> (\<forall>k. map_of (fold bump ws f) k =
               (if k \<in> set ws \<union> fst ` set f
                then Some (count_list ws k + (case map_of f k of None \<Rightarrow> 0 | Some n \<Rightarrow> n))
                else None))"
  using assms
proof (induction ws arbitrary: f)
  case Nil
  have "\<And>k. k \<notin> fst ` set f \<Longrightarrow> map_of f k = None"
    by (simp add: map_of_eq_None_iff)
  moreover have "\<And>k. k \<in> fst ` set f \<Longrightarrow> \<exists>n. map_of f k = Some n"
    by (metis map_of_eq_None_iff not_Some_eq)
  ultimately show ?case using Nil by auto
next
  case (Cons w ws)
  have d: "distinct (map fst (bump w f))"
    using Cons.prems by (rule distinct_bump)
  note ih = Cons.IH [OF d]
  have m: "\<And>k. k \<notin> fst ` set f \<Longrightarrow> map_of f k = None"
    by (simp add: map_of_eq_None_iff)
  show ?case
  proof (intro conjI allI)
    show "distinct (map fst (fold bump (w # ws) f))"
      using ih by simp
    show "fst ` set (fold bump (w # ws) f) = set (w # ws) \<union> fst ` set f"
      using ih by (auto simp add: keys_bump)
    fix k
    show "map_of (fold bump (w # ws) f) k =
            (if k \<in> set (w # ws) \<union> fst ` set f
             then Some (count_list (w # ws) k + (case map_of f k of None \<Rightarrow> 0 | Some n \<Rightarrow> n))
             else None)"
      using ih m by (auto simp add: keys_bump map_of_bump split: option.splits)
  qed
qed

lemma freq_items:
  "distinct (map fst (fold bump ws []))
   \<and> set (fold bump ws []) = (\<lambda>w. (w, count_list ws w)) ` set ws"
proof -
  let ?f = "fold bump ws []"
  have f: "distinct (map fst ?f)"
    and m: "\<And>k. map_of ?f k = (if k \<in> set ws then Some (count_list ws k) else None)"
    using fold_bump [of "[]" ws] by simp_all
  have "\<And>k n. ((k, n) \<in> set ?f) = (k \<in> set ws \<and> n = count_list ws k)"
    using map_of_eq_Some_iff [OF f] m by (metis option.distinct(1) option.inject)
  then have "set ?f = (\<lambda>w. (w, count_list ws w)) ` set ws"
    by (auto simp add: image_iff)
  then show ?thesis using f by simp
qed

lemma top_key_less: "(top_key x < top_key y) = ranks_before x y"
  by (auto simp add: top_key_def ranks_before_def)

lemma inj_top_key: "inj top_key"
  by (auto simp add: inj_on_def top_key_def prod_eq_iff)

lemma sort_key_ranks:
  assumes "distinct (map fst f)"
  shows "sorted_wrt ranks_before (sort_key top_key f) \<and> set (sort_key top_key f) = set f"
proof -
  let ?xs = "sort_key top_key f"
  have "distinct f"
    using assms by (rule distinct_map [THEN iffD1, THEN conjunct1])
  then have "distinct ?xs" by simp
  then have "distinct (map top_key ?xs)"
    using inj_on_subset [OF inj_top_key] by (simp add: distinct_map)
  moreover have "sorted (map top_key ?xs)"
    by (rule sorted_sort_key)
  ultimately have "sorted_wrt (<) (map top_key ?xs)"
    by (simp add: strict_sorted_iff)
  then have "sorted_wrt (\<lambda>x y. top_key x < top_key y) ?xs"
    by (simp add: sorted_wrt_map)
  then show ?thesis
    by (simp add: top_key_less)
qed

lemma ranks_ties:
  assumes "sorted_wrt ranks_before xs" "i < j" "j < length xs" "snd (xs ! i) = snd (xs ! j)"
  shows "fst (xs ! i) < fst (xs ! j)"
proof -
  have "ranks_before (xs ! i) (xs ! j)"
    using sorted_wrt_nth_less [OF assms(1,2,3)] .
  then show ?thesis
    using assms(4) by (simp add: ranks_before_def)
qed

lemma get_stats_top_10:
  assumes "get_stats st = Inr r"
  shows "field (body r) ''top_10_words'' =
           Some (JArr (map word_entry (top_10 (fold bump (corpus_words (papers st)) []))))
         \<and> status r = 200"
proof -
  from assms obtain n u f c where
    l: "stats_loop (papers st) (0, {}, [], []) = Inr (n, u, f, c)"
    by (auto simp add: get_stats_def split: sum.splits)
  have f: "f = fold bump (corpus_words (papers st)) []"
    using stats_loop_freq [OF l] .
  have w: "word_entry = (\<lambda>x. JObj [(''word'', JStr (fst x)), (''frequency'', JNum (int (snd x)))])"
    by (rule ext) (simp add: word_entry_def)
  show ?thesis
    using assms l f by (auto simp add: get_stats_def send_json_def field_def w)
qed

text \<open>C7. In a 200 response to \<open>/stats\<close> the member \<open>top_10_words\<close> is the first ten
  entries (all of them when there are fewer) of the list \<open>xs\<close> that holds one pair
  \<open>(w, n)\<close> for every word \<open>w\<close> of the abstracts of the corpus, \<open>n\<close> being the number of
  occurrences of \<open>w\<close> in all abstracts, ordered by \<open>ranks_before\<close>: higher frequency first,
  and among equal frequencies the lexicographically smaller word first.\<close>

theorem stats_top_10_ranking:
  assumes "exists st" "path req = ''/stats''" "status (do_GET unquote st req) = 200"
  shows "\<exists>xs. set xs = (\<lambda>w. (w, count_list (corpus_words (papers st)) w))
                          ` set (corpus_words (papers st))
              \<and> sorted_wrt ranks_before xs
              \<and> (\<forall>i j. i < j \<and> j < length xs \<and> snd (xs ! i) = snd (xs ! j)
                     \<longrightarrow> fst (xs ! i) < fst (xs ! j))
              \<and> field (body (do_GET unquote st req)) ''top_10_words''
                  = Some (JArr (map word_entry (take 10 xs)))"
proof -
  have t: "do_GET_try unquote st req = get_stats st"
    using route_stats [OF assms(1,2)] .
  obtain r where r: "get_stats st = Inr r" "do_GET unquote st req = r"
    using assms(3) t by (cases "get_stats st") (auto simp add: do_GET_def send_json_def)
  let ?f = "fold bump (corpus_words (papers st)) []"
  let ?xs = "sort_key top_key ?f"
  have d: "distinct (map fst ?f)"
    and s: "set ?f = (\<lambda>w. (w, count_list (corpus_words (papers st)) w))
                       ` set (corpus_words (papers st))"
    using freq_items by blast+
  have r1: "sorted_wrt ranks_before ?xs" and r2: "set ?xs = set ?f"
    using sort_key_ranks [OF d] by blast+
  have "\<forall>i j. i < j \<and> j < length ?xs \<and> snd (?xs ! i) = snd (?xs ! j)
          \<longrightarrow> fst (?xs ! i) < fst (?xs ! j)"
    using ranks_ties [OF r1] by blast
  moreover note r1 r2
  moreover have "field (body (do_GET unquote st req)) ''top_10_words''
                   = Some (JArr (map word_entry (take 10 ?xs)))"
    using get_stats_top_10 [OF r(1)] r(2) by (simp add: top_10_def)
  ultimately show ?thesis
    using s by blast
qed

theorem stats_top_10_ranking_witness:
  "exists sample_store
   \<and> status (do_GET (\<lambda>x. x) sample_store \<lparr>command = ''GET'', path = ''/stats'', query = []\<rparr>) = 200
   \<and> (\<exists>xs. set xs = (\<lambda>w. (w, count_list (corpus_words (papers sample_store)) w))
                          ` set (corpus_words (papers sample_store))
           \<and> sorted_wrt ranks_before xs
           \<and> (\<forall>i j. i < j \<and> j < length xs \<and> snd (xs ! i) = snd (xs ! j)
                  \<longrightarrow> fst (xs ! i) < fst (xs ! j))
           \<and> field (body (do_GET (\<lambda>x. x) sample_store
                             \<lparr>command = ''GET'', path = ''/stats'', query = []\<rparr>))
                ''top_10_words'' = Some (JArr (map word_entry (take 10 xs))))
   \<and> field (body (do_GET (\<lambda>x. x) sample_store
                     \<lparr>command = ''GET'', path = ''/stats'', query = []\<rparr>)) ''top_10_words''
      = Some (JArr (map word_entry
           [(''deep'', 3), (''a'', 1), (''fish'', 1), (''networks'', 1), (''result'', 1),
            (''train'', 1), (''we'', 1)]))"
proof -
  let ?r = "\<lparr>command = ''GET'', path = ''/stats'', query = []\<rparr>"
  have a: "exists sample_store" by code_simp
  have b: "path ?r = ''/stats''" by simp
  have c: "status (do_GET (\<lambda>x. x) sample_store ?r) = 200" by code_simp
  have d: "field (body (do_GET (\<lambda>x. x) sample_store ?r)) ''top_10_words''
      = Some (JArr (map word_entry
           [(''deep'', 3), (''a'', 1), (''fish'', 1), (''networks'', 1), (''result'', 1),
            (''train'', 1), (''we'', 1)]))"
    by code_simp
  show ?thesis
    using a c d stats_top_10_ranking [OF a b c] by blast
qed

subsection \<open>Loading the corpus\<close>

lemma sample_store_loaded:
  "DataStore_init (Parsed (JArr [JObj paper1, JObj paper2, JObj paper3])) = Inr sample_store"
  by (simp add: DataStore_init_def py_or_def get_def sample_store_def paper1_def paper2_def
      paper3_def)

text \<open>C3, as amended. When the corpus file is missing at start-up, the store is built empty,
  the server starts, and every \<open>GET\<close> request, whatever its path and query, is answered
  500 with the body \<open>{"error": "papers.json not found or empty"}\<close>.\<close>

theorem missing_corpus_500:
  assumes "command req = ''GET''"
  shows "serve unquote FileNotFound req =
         Inr (Json_reply (send_json (JObj [(''error'', JStr ''papers.json not found or empty'')]) 500))"
  using assms
  by (simp add: serve_def DataStore_init_def py_or_def handle_one_request_def do_GET_def
      do_GET_try_def exists_def)

theorem missing_corpus_500_witness:
  "serve (\<lambda>x. x) FileNotFound \<lparr>command = ''GET'', path = ''/stats'', query = []\<rparr> =
     Inr (Json_reply (send_json (JObj [(''error'', JStr ''papers.json not found or empty'')]) 500))"
  using missing_corpus_500 [of "\<lparr>command = ''GET'', path = ''/stats'', query = []\<rparr>" "\<lambda>x. x"]
  by simp

text \<open>The claim as written fails in two places. A file that is not JSON makes
  \<open>json.load\<close> raise an exception that \<open>load_json\<close> does not catch, so the process ends
  while the module is loaded and no request is ever answered. With a missing file, a request
  whose method is not \<open>GET\<close> is answered 501 by the base class, not 500.\<close>

theorem unparseable_corpus_counterexample:
  "serve (\<lambda>x. x) (Malformed ''Expecting value'') \<lparr>command = ''GET'', path = ''/papers'', query = []\<rparr>
     = Inl (JSONDecodeError ''Expecting value'')
   \<and> serve (\<lambda>x. x) FileNotFound \<lparr>command = ''POST'', path = ''/papers'', query = []\<rparr>
     = Inr (Error_page 501)"
  by (simp add: serve_def DataStore_init_def py_or_def handle_one_request_def)

lemma index_papers_dicts:
  "\<exists>idx'. index_papers (map JObj ds) idx = Inr (ds, idx')"
proof (induction ds arbitrary: idx)
  case Nil
  show ?case by simp
next
  case (Cons d ds)
  let ?idx1 = "case py_or (get d ''arxiv_id'') (get d ''id'') of JStr a \<Rightarrow> idx(a \<mapsto> d) | _ \<Rightarrow> idx"
  obtain idx' where "index_papers (map JObj ds) ?idx1 = Inr (ds, idx')"
    using Cons.IH by blast
  then show ?case by (simp add: Let_def)
qed

subsection \<open>Unrecognized fields\<close>

lemma map_of_known_fields:
  "k \<in> set recognized_fields \<Longrightarrow> map_of (known_fields d) k = map_of d k"
  by (induction d) (auto simp add: known_fields_def)

lemma get_known:
  "k \<in> set recognized_fields \<Longrightarrow> get (known_fields d) k = get d k"
  "k \<in> set recognized_fields \<Longrightarrow> get_default (known_fields d) k v = get_default d k v"
  by (simp_all add: get_def get_default_def map_of_known_fields)

lemma known_simps:
  "paper_id (known_fields p) = paper_id p"
  "paper_row (known_fields p) = paper_row p"
  "hay (known_fields p) = hay p"
  "abstract_stats (known_fields p) = abstract_stats p"
  "search_result (known_fields p) n wh = search_result p n wh"
  by (simp_all add: paper_id_def paper_row_def hay_def abstract_stats_def search_result_def
      get_known recognized_fields_def)

lemma search_loop_known: "search_loop (map known_fields ps) terms = search_loop ps terms"
  by (induction ps) (simp_all add: known_simps split: sum.splits)

lemma stats_loop_known: "stats_loop (map known_fields ps) s = stats_loop ps s"
proof (induction ps arbitrary: s)
  case Nil
  show ?case by simp
next
  case (Cons p ps)
  obtain n u f c where s: "s = (n, u, f, c)" by (cases s) auto
  show ?case
    unfolding s
    by (simp add: get_known recognized_fields_def Cons.IH split: sum.splits)
qed

lemma aid_has_id:
  assumes "py_or (get d ''arxiv_id'') (get d ''id'') = JStr a"
  shows "has_id d"
  using assms
  by (auto simp add: py_or_def get_def has_id_def split: if_splits option.splits)

lemma has_id_known: "has_id d \<Longrightarrow> known_fields d \<noteq> [] \<and> d \<noteq> []"
proof -
  assume "has_id d"
  then have "map_of (known_fields d) ''arxiv_id'' \<noteq> None \<or> map_of (known_fields d) ''id'' \<noteq> None"
    by (simp add: has_id_def map_of_known_fields recognized_fields_def)
  then have "known_fields d \<noteq> []" by auto
  then show ?thesis by (auto simp add: known_fields_def)
qed

lemma index_papers_known:
  assumes "index_papers (map JObj ds) idx = Inr (ds', idx')"
    and "\<forall>a p. idx a = Some p \<longrightarrow> has_id p"
  shows "index_papers (map JObj (map known_fields ds)) (\<lambda>a. map_option known_fields (idx a))
           = Inr (map known_fields ds', \<lambda>a. map_option known_fields (idx' a))
         \<and> (\<forall>a p. idx' a = Some p \<longrightarrow> has_id p)"
  using assms
proof (induction ds arbitrary: idx ds')
  case Nil
  then show ?case by simp
next
  case (Cons d ds)
  let ?aid = "py_or (get d ''arxiv_id'') (get d ''id'')"
  let ?idx1 = "case ?aid of JStr a \<Rightarrow> idx(a \<mapsto> d) | _ \<Rightarrow> idx"
  from Cons.prems(1) obtain ds1 where
    r: "index_papers (map JObj ds) ?idx1 = Inr (ds1, idx')" and ds': "ds' = d # ds1"
    by (auto simp add: Let_def split: sum.splits)
  have inv: "\<forall>a p. ?idx1 a = Some p \<longrightarrow> has_id p"
    using Cons.prems(2) aid_has_id [of d] by (auto split: json.splits)
  have k: "py_or (get (known_fields d) ''arxiv_id'') (get (known_fields d) ''id'') = ?aid"
    by (simp add: get_known recognized_fields_def)
  have m: "(case ?aid of
              JStr a \<Rightarrow> (\<lambda>a. map_option known_fields (idx a))(a \<mapsto> known_fields d)
            | _ \<Rightarrow> (\<lambda>a. map_option known_fields (idx a)))
           = (\<lambda>a. map_option known_fields (?idx1 a))"
    by (rule ext) (auto split: json.splits)
  have ih: "index_papers (map JObj (map known_fields ds)) (\<lambda>a. map_option known_fields (?idx1 a))
              = Inr (map known_fields ds1, \<lambda>a. map_option known_fields (idx' a))"
    and inv': "\<forall>a p. idx' a = Some p \<longrightarrow> has_id p"
    using Cons.IH [OF r inv] by blast+
  have "index_papers (map JObj (map known_fields (d # ds))) (\<lambda>a. map_option known_fields (idx a))
          = Inr (map known_fields ds', \<lambda>a. map_option known_fields (idx' a))"
    unfolding list.map index_papers.simps json.case Let_def k m ih ds'
    by simp
  then show ?case using inv' by blast
qed

lemma get_paper_known:
  assumes "\<forall>a p. by_id st a = Some p \<longrightarrow> has_id p"
    and "by_id st' = (\<lambda>a. map_option known_fields (by_id st a))"
  shows "get_paper st' aid = get_paper st aid"
proof (cases "by_id st aid")
  case None
  then show ?thesis using assms(2) by (simp add: get_paper_def)
next
  case (Some p)
  then have "known_fields p \<noteq> []" "p \<noteq> []"
    using assms(1) has_id_known by blast+
  then show ?thesis
    using Some assms(2)
    by (simp add: get_paper_def known_simps get_known recognized_fields_def split: sum.splits)
qed

lemma handle_known:
  assumes "DataStore_init (Parsed (JArr (map JObj ds))) = Inr st"
  shows "\<exists>st'. DataStore_init (Parsed (JArr (map JObj (map known_fields ds)))) = Inr st'
           \<and> papers st' = map known_fields (papers st)
           \<and> handle_one_request unquote st' req = handle_one_request unquote st req"
proof -
  have it: "\<And>xs. py_iter (py_or (JArr (map JObj xs)) (JArr [])) = Inr (map JObj xs)"
    by (simp add: py_or_def)
  from assms obtain ds' idx' where
    i: "index_papers (map JObj ds) Map.empty = Inr (ds', idx')"
    and st: "st = \<lparr>papers = ds', by_id = idx'\<rparr>"
    by (auto simp add: DataStore_init_def it split: sum.splits)
  have e: "\<forall>a p. (Map.empty :: string \<rightharpoonup> dict) a = Some p \<longrightarrow> has_id p"
    by simp
  note kk = index_papers_known [OF i e]
  have k: "index_papers (map JObj (map known_fields ds)) Map.empty
             = Inr (map known_fields ds', \<lambda>a. map_option known_fields (idx' a))"
    using kk by simp
  have inv: "\<forall>a p. idx' a = Some p \<longrightarrow> has_id p"
    using kk by blast
  let ?st' = "\<lparr>papers = map known_fields ds', by_id = \<lambda>a. map_option known_fields (idx' a)\<rparr>"
  have a: "DataStore_init (Parsed (JArr (map JObj (map known_fields ds)))) = Inr ?st'"
    unfolding DataStore_init_def load_json.simps sum.case it k by simp
  have gp: "\<And>aid. get_paper ?st' aid = get_paper st aid"
    by (rule get_paper_known) (simp_all add: st inv)
  have ex: "exists ?st' = exists st"
    by (simp add: exists_def st)
  have gps: "get_papers ?st' = get_papers st"
    by (simp add: st get_papers_def known_simps comp_def)
  have ps: "papers ?st' = map known_fields (papers st)"
    by (simp add: st)
  have gs: "get_search ?st' req = get_search st req"
    by (simp only: get_search_def ps search_loop_known)
  have gst: "get_stats ?st' = get_stats st"
    by (simp only: get_stats_def ps stats_loop_known length_map)
  have "do_GET_try unquote ?st' req = do_GET_try unquote st req"
    by (simp only: do_GET_try_def ex gp gps gs gst)
  then have "handle_one_request unquote ?st' req = handle_one_request unquote st req"
    by (simp add: handle_one_request_def do_GET_def)
  then show ?thesis
    using a by (simp add: st)
qed

text \<open>C4, as amended. A bare array of paper objects is accepted: the store's paper
  sequence is that array, in order, whatever other fields the elements carry. Unrecognized
  fields are ignored: loading the array with only the recognized fields of each element
  kept gives a store that answers every request identically. An object holding the array
  under \<open>papers\<close> (any non-empty object) is not accepted: building the store raises.\<close>

theorem bare_array_store:
  "(\<exists>st st'. DataStore_init (Parsed (JArr (map JObj ds))) = Inr st \<and> papers st = ds
        \<and> DataStore_init (Parsed (JArr (map JObj (map known_fields ds)))) = Inr st'
        \<and> handle_one_request unquote st' req = handle_one_request unquote st req)
   \<and> (d \<noteq> [] \<longrightarrow> (\<exists>e. DataStore_init (Parsed (JObj d)) = Inl e))"
proof (intro conjI impI)
  obtain idx where i: "index_papers (map JObj ds) Map.empty = Inr (ds, idx)"
    using index_papers_dicts by blast
  have "py_iter (py_or (JArr (map JObj ds)) (JArr [])) = Inr (map JObj ds)"
    by (simp add: py_or_def)
  then have a: "DataStore_init (Parsed (JArr (map JObj ds))) = Inr \<lparr>papers = ds, by_id = idx\<rparr>"
    using i by (simp add: DataStore_init_def)
  show "\<exists>st st'. DataStore_init (Parsed (JArr (map JObj ds))) = Inr st \<and> papers st = ds
        \<and> DataStore_init (Parsed (JArr (map JObj (map known_fields ds)))) = Inr st'
        \<and> handle_one_request unquote st' req = handle_one_request unquote st req"
    using a handle_known [OF a, of unquote req] by auto
next
  assume "d \<noteq> []"
  then obtain k v r where d: "d = (k, v) # r" by (cases d) auto
  then show "\<exists>e. DataStore_init (Parsed (JObj d)) = Inl e"
    by (simp add: DataStore_init_def py_or_def)
qed

theorem bare_array_store_witness:
  "(\<exists>st st'. DataStore_init (Parsed (JArr [JObj [(''arxiv_id'', JStr ''1''), (''note'', JNum 7)],
                                            JObj [(''title'', JStr ''T'')]])) = Inr st
         \<and> papers st = [[(''arxiv_id'', JStr ''1''), (''note'', JNum 7)], [(''title'', JStr ''T'')]]
         \<and> DataStore_init (Parsed (JArr [JObj [(''arxiv_id'', JStr ''1'')],
                                          JObj [(''title'', JStr ''T'')]])) = Inr st'
         \<and> handle_one_request (\<lambda>x. x) st' \<lparr>command = ''GET'', path = ''/papers/1'', query = []\<rparr>
             = handle_one_request (\<lambda>x. x) st \<lparr>command = ''GET'', path = ''/papers/1'', query = []\<rparr>)
   \<and> (\<exists>e. DataStore_init (Parsed (JObj [(''papers'', JArr [])])) = Inl e)"
proof -
  have k: "map known_fields [[(''arxiv_id'', JStr ''1''), (''note'', JNum 7)], [(''title'', JStr ''T'')]]
           = [[(''arxiv_id'', JStr ''1'')], [(''title'', JStr ''T'')]]"
    by code_simp
  show ?thesis
    using bare_array_store
      [of "[[(''arxiv_id'', JStr ''1''), (''note'', JNum 7)], [(''title'', JStr ''T'')]]"
          "\<lambda>x. x" "\<lparr>command = ''GET'', path = ''/papers/1'', query = []\<rparr>"
          "[(''papers'', JArr [])]"]
    unfolding k by simp
qed

text \<open>The claim as written also accepts an object that holds the array under \<open>papers\<close>.
  The loop of \<open>DataStore.__init__\<close> then runs over the keys of the object, and
  \<open>"papers".get\<close> raises: no store is built.\<close>

theorem papers_object_counterexample:
  "DataStore_init (Parsed (JObj [(''papers'', JArr [JObj [(''arxiv_id'', JStr ''1'')]])]))
     = Inl (no_attribute (JStr ''papers'') ''get'')"
  by (simp add: DataStore_init_def py_or_def)

subsection \<open>Requests that find nothing\<close>

lemma parts_papers: "path_parts unquote ''/papers'' = [unquote ''papers'']"
  by (simp add: path_parts_def strip_char_def)

lemma two_parts:
  "(length ps = 2 \<and> ps ! 0 = ''papers'') = (case ps of [a, b] \<Rightarrow> a = ''papers'' | _ \<Rightarrow> False)"
  by (cases ps rule: list.exhaust; simp split: list.splits)

text \<open>C9, as amended. With a non-empty corpus, a \<open>GET\<close> request whose path is not one of
  the four recognized endpoints is answered 404 with the object
  \<open>{"error": "endpoint not found"}\<close>, and a \<open>GET /papers/<id>\<close> for an id that the index
  does not hold is answered 404 with an error object that repeats the requested id under
  \<open>arxiv_id\<close>. A request whose method is not \<open>GET\<close> does not reach the handler's code:
  the base class answers 501.\<close>

theorem not_found_404:
  assumes "exists st" "command req = ''GET''"
  shows "(\<not> recognized unquote (path req) \<longrightarrow>
            handle_one_request unquote st req =
              Json_reply (send_json (JObj [(''error'', JStr ''endpoint not found'')]) 404))
         \<and> (path_parts unquote (path req) = [''papers'', aid] \<and> by_id st aid = None \<longrightarrow>
            handle_one_request unquote st req =
              Json_reply (send_json (JObj [(''error'', JStr ''unknown paper id''),
                                           (''arxiv_id'', JStr aid)]) 404))
         \<and> (command req' \<noteq> ''GET'' \<longrightarrow> handle_one_request unquote st req' = Error_page 501)"
proof (intro conjI impI)
  assume n: "\<not> recognized unquote (path req)"
  then have "path req \<noteq> ''/papers''" "path req \<noteq> ''/search''" "path req \<noteq> ''/stats''"
    and "\<not> (length (path_parts unquote (path req)) = 2 \<and> path_parts unquote (path req) ! 0 = ''papers'')"
    by (simp_all add: recognized_def two_parts)
  then show "handle_one_request unquote st req =
              Json_reply (send_json (JObj [(''error'', JStr ''endpoint not found'')]) 404)"
    using assms by (auto simp add: handle_one_request_def do_GET_def do_GET_try_def Let_def)
next
  assume h: "path_parts unquote (path req) = [''papers'', aid] \<and> by_id st aid = None"
  then have "path req \<noteq> ''/papers''"
    using parts_papers [of unquote] by auto
  then show "handle_one_request unquote st req =
              Json_reply (send_json (JObj [(''error'', JStr ''unknown paper id''),
                                           (''arxiv_id'', JStr aid)]) 404)"
    using assms h
    by (simp add: handle_one_request_def do_GET_def do_GET_try_def Let_def get_paper_def)
next
  assume "command req' \<noteq> ''GET''"
  then show "handle_one_request unquote st req' = Error_page 501"
    by (simp add: handle_one_request_def)
qed

theorem not_found_404_witness:
  "exists sample_store
   \<and> \<not> recognized (\<lambda>x. x) ''/papers/1/extra''
   \<and> handle_one_request (\<lambda>x. x) sample_store
        \<lparr>command = ''GET'', path = ''/papers/1/extra'', query = []\<rparr>
      = Json_reply (send_json (JObj [(''error'', JStr ''endpoint not found'')]) 404)
   \<and> handle_one_request (\<lambda>x. x) sample_store
        \<lparr>command = ''GET'', path = ''/papers/9'', query = []\<rparr>
      = Json_reply (send_json (JObj [(''error'', JStr ''unknown paper id''),
                                     (''arxiv_id'', JStr ''9'')]) 404)
   \<and> handle_one_request (\<lambda>x. x) sample_store
        \<lparr>command = ''HEAD'', path = ''/papers'', query = []\<rparr> = Error_page 501"
proof -
  let ?r1 = "\<lparr>command = ''GET'', path = ''/papers/1/extra'', query = []\<rparr>"
  let ?r2 = "\<lparr>command = ''GET'', path = ''/papers/9'', query = []\<rparr>"
  let ?r3 = "\<lparr>command = ''HEAD'', path = ''/papers'', query = []\<rparr>"
  have a: "exists sample_store" by code_simp
  have g1: "command ?r1 = ''GET''" and g2: "command ?r2 = ''GET''" by simp_all
  have n: "\<not> recognized (\<lambda>x. x) (path ?r1)" by code_simp
  have p: "path_parts (\<lambda>x. x) (path ?r2) = [''papers'', ''9'']" by code_simp
  have b: "by_id sample_store ''9'' = None" by (simp add: sample_store_def)
  have h: "command ?r3 \<noteq> ''GET''" by simp
  show ?thesis
    using a n p b h
      not_found_404 [OF a g1, of "\<lambda>x. x" "''9''" ?r3]
      not_found_404 [OF a g2, of "\<lambda>x. x" "''9''" ?r3]
    by simp
qed

text \<open>The claim as written has every method other than \<open>GET\<close> answered 404. The
  handler defines \<open>do_GET\<close> only, and for any other method the base class answers 501.\<close>

theorem other_method_counterexample:
  "reply_status (handle_one_request (\<lambda>x. x) sample_store
      \<lparr>command = ''POST'', path = ''/papers'', query = []\<rparr>) = 501"
  by (simp add: handle_one_request_def)

end
